theory Spec2Isabelle
  imports Complex_Main "HOL-Library.Sublist" "HOL-Library.AList"
begin

section \<open>Python values\<close>

text \<open>
  A Python \<open>str\<close> is a sequence of Unicode code points, so it is a list of naturals here
  (an Isabelle \<open>char\<close> is a byte, and the decomposition of an accented letter leaves the
  byte range). \<open>ustr_of\<close> reads an ASCII literal.
\<close>

type_synonym ustr = "nat list"

definition ustr_of :: "string \<Rightarrow> ustr" where
  "ustr_of s = map of_char s"

text \<open>
  Issues and field metadata are what \<open>response.json()\<close> returns: JSON values. A
  \<open>dict\<close> keeps its insertion order, so it is an association list; \<open>d[k] = v\<close> is
  \<open>AList.update\<close> (in place when the key is there, appended otherwise), \<open>d.pop(k)\<close>
  removes the entry (\<open>AList.delete\<close>), \<open>k in d\<close> and \<open>d.get(k)\<close> are \<open>map_of\<close>.
\<close>

datatype json =
    JNull
  | JBool bool
  | JNum rat
  | JStr ustr
  | JList "json list"
  | JDict "(ustr \<times> json) list"

fun truthy :: "json \<Rightarrow> bool" where
  "truthy JNull = False"
| "truthy (JBool b) = b"
| "truthy (JNum n) = (n \<noteq> 0)"
| "truthy (JStr s) = (s \<noteq> [])"
| "truthy (JList xs) = (xs \<noteq> [])"
| "truthy (JDict d) = (d \<noteq> [])"

fun is_dict :: "json \<Rightarrow> bool" where
  "is_dict (JDict d) = True"
| "is_dict _ = False"

fun is_list :: "json \<Rightarrow> bool" where
  "is_list (JList xs) = True"
| "is_list _ = False"

fun is_str :: "json \<Rightarrow> bool" where
  "is_str (JStr s) = True"
| "is_str _ = False"

text \<open>\<open>k in v\<close> for a dict \<open>v\<close>; used only behind an \<open>isinstance(v, dict)\<close> test.\<close>

fun has_key :: "ustr \<Rightarrow> json \<Rightarrow> bool" where
  "has_key k (JDict d) = (map_of d k \<noteq> None)"
| "has_key k _ = False"

text \<open>\<open>d.get(k)\<close>, with \<open>None\<close> for a missing key.\<close>

definition dict_get :: "(ustr \<times> json) list \<Rightarrow> ustr \<Rightarrow> json" where
  "dict_get d k = (case map_of d k of None \<Rightarrow> JNull | Some v \<Rightarrow> v)"

text \<open>
  The exceptions of the program. The \<open>ValueError\<close>s of \<open>transform.py\<close> differ by their
  message only; the message is the constructor here.
\<close>

datatype value_error =
    IssueNotDict
  | FieldsKeyMissing
  | MetadataNotList
  | InvalidIssueStructure

datatype exn =
    ValueError value_error
  | AttributeError
  | TypeError
  | KeyError ustr
  | ZeroDivisionError
  | OSError
  | JiraApiError nat
  | OtherException

section \<open>transform.py: normalize\_field\_name\<close>

text \<open>
  \<open>unicodedata\<close> is the interpreter's Unicode database, not code of the repository: the
  two functions the program calls are parameters.
\<close>

record unicodedata =
  normalize_NFKD :: "ustr \<Rightarrow> ustr"
  combining :: "nat \<Rightarrow> nat"

definition dash :: nat where
  "dash = 45"

text \<open>The characters \<open>\s\<close> matches in a \<open>str\<close> pattern (those of \<open>str.isspace\<close>).\<close>

definition py_isspace :: "nat \<Rightarrow> bool" where
  "py_isspace c \<longleftrightarrow>
     (9 \<le> c \<and> c \<le> 13) \<or> (28 \<le> c \<and> c \<le> 32) \<or> c = 133 \<or> c = 160 \<or> c = 5760
     \<or> (8192 \<le> c \<and> c \<le> 8202) \<or> c = 8232 \<or> c = 8233 \<or> c = 8239 \<or> c = 8287
     \<or> c = 12288"

text \<open>The class \<open>[a-zA-Z0-9\-]\<close>.\<close>

definition alnum_dash :: "nat \<Rightarrow> bool" where
  "alnum_dash c \<longleftrightarrow>
     (97 \<le> c \<and> c \<le> 122) \<or> (65 \<le> c \<and> c \<le> 90) \<or> (48 \<le> c \<and> c \<le> 57) \<or> c = dash"

text \<open>
  \<open>re.sub(r'X+', r, s)\<close> for a character class \<open>X\<close>: every maximal run of characters of
  the class becomes the one character \<open>r\<close>.
\<close>

function sub_plus :: "(nat \<Rightarrow> bool) \<Rightarrow> nat \<Rightarrow> ustr \<Rightarrow> ustr" where
  "sub_plus p r [] = []"
| "sub_plus p r (c # cs) =
     (if p c then r # sub_plus p r (dropWhile p cs) else c # sub_plus p r cs)"
  by pat_completeness auto
termination
  by (relation "measure (\<lambda>(p, r, s). length s)")
     (auto simp: length_dropWhile_le less_Suc_eq_le)

text \<open>\<open>re.sub(r'X', r, s)\<close>: every character of the class becomes \<open>r\<close>.\<close>

definition sub_each :: "(nat \<Rightarrow> bool) \<Rightarrow> nat \<Rightarrow> ustr \<Rightarrow> ustr" where
  "sub_each p r s = map (\<lambda>c. if p c then r else c) s"

text \<open>\<open>s.strip(c)\<close> for a one-character argument.\<close>

definition py_strip :: "nat \<Rightarrow> ustr \<Rightarrow> ustr" where
  "py_strip c s = rev (dropWhile (\<lambda>x. x = c) (rev (dropWhile (\<lambda>x. x = c) s)))"

text \<open>
  \<open>str.lower\<close> on the ASCII repertoire. The program lowers a string that the two
  substitutions before it have brought into \<open>[a-zA-Z0-9-]\<close> (lemma \<open>cleaned_alnum_dash\<close>
  below), where this is all that \<open>str.lower\<close> does.
\<close>

definition lower_char :: "nat \<Rightarrow> nat" where
  "lower_char c = (if 65 \<le> c \<and> c \<le> 90 then c + 32 else c)"

definition py_lower :: "ustr \<Rightarrow> ustr" where
  "py_lower s = map lower_char s"

text \<open>The value of \<open>cleaned\<close> at line 107, from the non-empty string \<open>field_name\<close>.\<close>

definition cleaned_of :: "unicodedata \<Rightarrow> ustr \<Rightarrow> ustr" where
  "cleaned_of ud field_name =
     (let normalized = normalize_NFKD ud field_name;
          without_accents = filter (\<lambda>char. combining ud char = 0) normalized;
          cleaned = sub_plus py_isspace dash without_accents;
          cleaned = sub_each (\<lambda>c. \<not> alnum_dash c) dash cleaned
      in py_strip dash (sub_plus (\<lambda>c. c = dash) dash cleaned))"

definition normalize_field_name :: "unicodedata \<Rightarrow> json \<Rightarrow> ustr" where
  "normalize_field_name ud field_name =
     (if \<not> truthy field_name \<or> \<not> is_str field_name then []
      else case field_name of JStr s \<Rightarrow> py_lower (cleaned_of ud s) | _ \<Rightarrow> [])"

section \<open>transform.py: the record transformer\<close>

text \<open>
  \<open>get_correspond_name_by_field_id\<close>: the \<open>name\<close> of the first entry of the catalog that
  is a dict with the given \<open>id\<close>, \<open>None\<close> when there is none. The field id is a key of a
  dict read from JSON, a \<open>str\<close>, so the test on its type cannot fail.
\<close>

fun find_field :: "json list \<Rightarrow> ustr \<Rightarrow> json" where
  "find_field [] field_name = JNull"
| "find_field (field # rest) field_name =
     (case field of
        JDict d \<Rightarrow>
          if dict_get d (ustr_of ''id'') = JStr field_name then dict_get d (ustr_of ''name'')
          else find_field rest field_name
      | _ \<Rightarrow> find_field rest field_name)"

definition get_correspond_name_by_field_id :: "json \<Rightarrow> ustr \<Rightarrow> exn + json" where
  "get_correspond_name_by_field_id fields_metadata field_name =
     (case fields_metadata of
        JList entries \<Rightarrow> Inr (find_field entries field_name)
      | _ \<Rightarrow> Inl (ValueError MetadataNotList))"

definition get_normalized_field_name :: "unicodedata \<Rightarrow> json \<Rightarrow> ustr \<Rightarrow> exn + ustr" where
  "get_normalized_field_name ud fields_list field_id =
     (case get_correspond_name_by_field_id fields_list field_id of
        Inl e \<Rightarrow> Inl e
      | Inr field_name \<Rightarrow>
          if truthy field_name then Inr (normalize_field_name ud field_name) else Inr [])"

text \<open>
  The functions that write to the issue return the exception raised, if any, and the
  content of the issue object when they end: the issue is mutated in place, and the
  caller holds the same object whether the call returns or raises.

  \<open>rename_customfield\<close>: \<open>fields\<close> is whatever \<open>issue['fields']\<close> holds. \<open>in\<close> is key
  membership on a dict, element membership on a list, the substring test on a \<open>str\<close>,
  and a \<open>TypeError\<close> on the other values; \<open>pop\<close> with a \<open>str\<close> argument is a
  \<open>TypeError\<close> on a list, and a \<open>str\<close> has no \<open>pop\<close>.
\<close>

definition rename_customfield :: "json \<Rightarrow> ustr \<Rightarrow> ustr \<Rightarrow> exn option \<times> json" where
  "rename_customfield issue old_name new_name =
     (case issue of
        JDict obj \<Rightarrow>
          (case map_of obj (ustr_of ''fields'') of
             None \<Rightarrow> (Some (ValueError FieldsKeyMissing), issue)
           | Some fields_v \<Rightarrow>
               (case fields_v of
                  JDict d \<Rightarrow>
                    (case map_of d old_name of
                       None \<Rightarrow> (None, issue)
                     | Some v \<Rightarrow>
                         (None, JDict (AList.update (ustr_of ''fields'')
                            (JDict (AList.update new_name v (AList.delete old_name d))) obj)))
                | JList xs \<Rightarrow>
                    if JStr old_name \<notin> set xs then (None, issue) else (Some TypeError, issue)
                | JStr s \<Rightarrow>
                    if \<not> sublist old_name s then (None, issue)
                    else (Some AttributeError, issue)
                | _ \<Rightarrow> (Some TypeError, issue)))
      | _ \<Rightarrow> (Some (ValueError IssueNotDict), issue))"

definition get_custom_fields_names :: "json \<Rightarrow> exn + ustr list" where
  "get_custom_fields_names issue =
     (if \<not> is_dict issue \<or> \<not> has_key (ustr_of ''fields'') issue
      then Inl (ValueError InvalidIssueStructure)
      else case issue of
        JDict obj \<Rightarrow>
          (case dict_get obj (ustr_of ''fields'') of
             JDict d \<Rightarrow>
               Inr (filter (\<lambda>field_name. prefix (ustr_of ''customfield_'') field_name)
                      (map fst d))
           | _ \<Rightarrow> Inl AttributeError)
      | _ \<Rightarrow> Inl (ValueError InvalidIssueStructure))"

text \<open>The loop of \<open>transform_issue\<close> (lines 42 to 49) over the names found before it.\<close>

fun rename_loop :: "unicodedata \<Rightarrow> json \<Rightarrow> ustr list \<Rightarrow> json \<Rightarrow> exn option \<times> json" where
  "rename_loop ud fields_metadata [] issue = (None, issue)"
| "rename_loop ud fields_metadata (old_name # rest) issue =
     (case get_normalized_field_name ud fields_metadata old_name of
        Inl e \<Rightarrow> (Some e, issue)
      | Inr new_name \<Rightarrow>
          if new_name \<noteq> [] \<and> new_name \<noteq> old_name then
            (case rename_customfield issue old_name new_name of
               (Some e, issue') \<Rightarrow> (Some e, issue')
             | (None, issue') \<Rightarrow> rename_loop ud fields_metadata rest issue')
          else rename_loop ud fields_metadata rest issue)"

definition transform_issue :: "unicodedata \<Rightarrow> json \<Rightarrow> json \<Rightarrow> exn option \<times> json" where
  "transform_issue ud issue fields_metadata =
     (if \<not> is_dict issue then (Some (ValueError IssueNotDict), issue)
      else if \<not> has_key (ustr_of ''fields'') issue
        then (Some (ValueError FieldsKeyMissing), issue)
      else if \<not> is_list fields_metadata then (Some (ValueError MetadataNotList), issue)
      else case get_custom_fields_names issue of
        Inl e \<Rightarrow> (Some e, issue)
      | Inr custom_fields_names \<Rightarrow>
          rename_loop ud fields_metadata custom_fields_names issue)"

text \<open>
  A fragment of the Unicode database for the examples: U+00E9 decomposes into U+0065
  U+0301, and U+0301 is a combining mark (class 230); every other code point is its own
  decomposition, of class 0.
\<close>

definition ud_fragment :: unicodedata where
  "ud_fragment =
     \<lparr>normalize_NFKD = (\<lambda>s. concat (map (\<lambda>c. if c = 233 then [101, 769] else [c]) s)),
      combining = (\<lambda>c. if c = 769 then 230 else 0)\<rparr>"

section \<open>The collaborators: remote service, file system, log\<close>

text \<open>
  The HTTP session and the file system are outside the program. Their answers are the
  fields of an environment, so that a property proved for every environment holds for
  every behaviour of the network and of the disk:
  \<^item> \<open>total_resp\<close> is the outcome of \<open>countTotalIussues\<close> (the exception that
    \<open>_check_response\<close> or the session raises, or the \<open>total\<close> of the reply);
  \<^item> \<open>fields_resp start\<close> is the outcome of \<open>get_jira_fields_metadata\<close> when the page
    unit of offset \<open>start\<close> calls it (two units may get different answers);
  \<^item> \<open>search_resp start maxResults\<close> is the outcome of \<open>getBatchIssues\<close> followed by
    \<open>['issues']\<close>: the search API answers with a list of issues;
  \<^item> \<open>makedirs_ok\<close> and \<open>save_json_ok\<close> say whether \<open>os.makedirs\<close> and the writing of the
    JSON document succeed for an issue key (an \<open>OSError\<close> otherwise);
  \<^item> \<open>session_get key i url\<close> is the outcome of the request for the \<open>i\<close>-th attachment of
    the issue \<open>key\<close>, \<open>write_ok key i name\<close> whether writing its file succeeds;
  \<^item> \<open>unicode\<close> is the Unicode database.
  What the program does to them is a trace of events.
\<close>

datatype get_outcome =
    GetRaises
  | GetStatus nat

record env =
  unicode :: unicodedata
  total_resp :: "exn + int"
  fields_resp :: "int \<Rightarrow> exn + json"
  search_resp :: "int \<Rightarrow> int \<Rightarrow> exn + json list"
  makedirs_ok :: "json \<Rightarrow> bool"
  save_json_ok :: "json \<Rightarrow> bool"
  session_get :: "json \<Rightarrow> nat \<Rightarrow> json \<Rightarrow> get_outcome"
  write_ok :: "json \<Rightarrow> nat \<Rightarrow> json \<Rightarrow> bool"

datatype event =
    CountRequest
  | FieldsRequest int
  | SearchRequest int int
  | TransformCall json json
  | MakeDirs json
  | SaveJson json json
  | AttachmentGet json
  | AttachmentSaved json
  | LogInfo json
  | LogWarning json
  | LogError json

section \<open>jira\_client.py: download\_attachments\<close>


text \<open>
  The body of the \<open>try\<close> for one attachment, with its \<open>except Exception\<close>: the request,
  then for a status 200 the write (\<open>os.path.join\<close> raises a \<open>TypeError\<close> on a file name
  that is not a \<open>str\<close>), each failure ending in a log record and nothing else.
\<close>

definition fetch_one :: "env \<Rightarrow> json \<Rightarrow> nat \<Rightarrow> json \<Rightarrow> json \<Rightarrow> event list" where
  "fetch_one e issue_key i file_url file_name =
     (case session_get e issue_key i file_url of
        GetRaises \<Rightarrow> [AttachmentGet file_url, LogError file_name]
      | GetStatus status_code \<Rightarrow>
          if status_code = 200 then
            (if is_str file_name \<and> write_ok e issue_key i file_name
             then [AttachmentGet file_url, AttachmentSaved file_name, LogInfo file_name]
             else [AttachmentGet file_url, LogError file_name])
          else [AttachmentGet file_url, LogWarning file_name])"



section \<open>load.py: save\_issue\<close>


section \<open>pipeline.py\<close>








section \<open>Notions for the properties\<close>

text \<open>The characters of a normalized token: \<open>[a-z0-9-]\<close>.\<close>

definition token_char :: "nat \<Rightarrow> bool" where
  "token_char c \<longleftrightarrow> (97 \<le> c \<and> c \<le> 122) \<or> (48 \<le> c \<and> c \<le> 57) \<or> c = dash"

text \<open>
  The shape of a normalized token: characters of \<open>[a-z0-9-]\<close>, no two hyphens in a row,
  no hyphen at either end.
\<close>

definition is_token :: "ustr \<Rightarrow> bool" where
  "is_token t \<longleftrightarrow>
     (\<forall>c\<in>set t. token_char c) \<and> \<not> sublist [dash, dash] t
     \<and> (t \<noteq> [] \<longrightarrow> hd t \<noteq> dash \<and> last t \<noteq> dash)"

text \<open>
  What the properties of a second normalization need from the Unicode database: an
  ASCII string is its own compatibility decomposition, and no ASCII character is a
  combining mark.
\<close>

definition ascii_fixed :: "unicodedata \<Rightarrow> bool" where
  "ascii_fixed ud \<longleftrightarrow>
     (\<forall>s. (\<forall>c\<in>set s. c < 128) \<longrightarrow> normalize_NFKD ud s = s)
     \<and> (\<forall>c<128. combining ud c = 0)"

text \<open>
  The loop of \<open>transform_issue\<close> seen from the \<open>fields\<close> dict alone, for an issue that
  is a dict whose \<open>fields\<close> is a dict and a catalog that is a list (lemma
  \<open>transform_issue_fields\<close> below): \<open>field_token\<close> is the new name found for a key,
  \<open>rename_entry\<close> the effect of \<open>rename_customfield\<close> on \<open>fields\<close>, \<open>fields_loop\<close> the
  loop.
\<close>

definition field_token :: "unicodedata \<Rightarrow> json list \<Rightarrow> ustr \<Rightarrow> ustr" where
  "field_token ud entries k =
     (if truthy (find_field entries k) then normalize_field_name ud (find_field entries k)
      else [])"

definition rename_entry :: "(ustr \<times> json) list \<Rightarrow> ustr \<Rightarrow> ustr \<Rightarrow> (ustr \<times> json) list" where
  "rename_entry d old_name new_name =
     (case map_of d old_name of
        None \<Rightarrow> d
      | Some v \<Rightarrow> AList.update new_name v (AList.delete old_name d))"

fun fields_loop ::
  "unicodedata \<Rightarrow> json list \<Rightarrow> ustr list \<Rightarrow> (ustr \<times> json) list \<Rightarrow> (ustr \<times> json) list" where
  "fields_loop ud entries [] d = d"
| "fields_loop ud entries (k # ks) d =
     (if field_token ud entries k \<noteq> [] \<and> field_token ud entries k \<noteq> k
      then fields_loop ud entries ks (rename_entry d k (field_token ud entries k))
      else fields_loop ud entries ks d)"

text \<open>The dynamic fields: the keys that start with \<open>customfield_\<close>.\<close>

definition is_custom :: "ustr \<Rightarrow> bool" where
  "is_custom k \<longleftrightarrow> prefix (ustr_of ''customfield_'') k"




definition requested_urls :: "event list \<Rightarrow> json list" where
  "requested_urls evs = [url. AttachmentGet url \<leftarrow> evs]"

text \<open>
  Readings of a trace: the offsets of the catalog requests, the \<open>(startAt, maxResults)\<close>
  of the page requests, the catalogs passed to \<open>transform_issue\<close>; \<open>store_event\<close> are the
  events of \<open>save_issue\<close>.
\<close>

definition fields_requests :: "event list \<Rightarrow> int list" where
  "fields_requests evs = [start. FieldsRequest start \<leftarrow> evs]"

definition search_requests :: "event list \<Rightarrow> (int \<times> int) list" where
  "search_requests evs = [(start, maxResults). SearchRequest start maxResults \<leftarrow> evs]"

definition transform_catalogs :: "event list \<Rightarrow> json list" where
  "transform_catalogs evs = [md. TransformCall issue md \<leftarrow> evs]"


section \<open>Properties of normalize\_field\_name\<close>

lemma set_sub_plus: "set (sub_plus p r s) \<subseteq> insert r (set s)"
proof (induction p r s rule: sub_plus.induct)
  case (1 p r)
  then show ?case by simp
next
  case (2 p r c cs)
  have "set (dropWhile p cs) \<subseteq> set cs" by (auto dest: set_dropWhileD)
  with 2 show ?case by auto
qed

lemma set_py_strip: "set (py_strip c s) \<subseteq> set s"
  by (auto simp: py_strip_def dest!: set_dropWhileD)

lemma sub_each_alnum: "\<forall>c\<in>set (sub_each (\<lambda>c. \<not> alnum_dash c) dash s). alnum_dash c"
  by (auto simp: sub_each_def alnum_dash_def)

lemma cleaned_alnum_dash: "c \<in> set (cleaned_of ud s) \<Longrightarrow> alnum_dash c"
proof -
  assume a: "c \<in> set (cleaned_of ud s)"
  define x where "x = sub_each (\<lambda>c. \<not> alnum_dash c) dash
     (sub_plus py_isspace dash (filter (\<lambda>char. combining ud char = 0) (normalize_NFKD ud s)))"
  have "c \<in> set (py_strip dash (sub_plus (\<lambda>c. c = dash) dash x))"
    using a by (simp add: cleaned_of_def x_def Let_def)
  then have "c \<in> insert dash (set x)"
    using set_py_strip set_sub_plus by blast
  moreover have "\<forall>c\<in>set x. alnum_dash c" unfolding x_def by (rule sub_each_alnum)
  ultimately show ?thesis by (auto simp: alnum_dash_def)
qed

lemma lower_token: "alnum_dash c \<Longrightarrow> token_char (lower_char c)"
  by (auto simp: alnum_dash_def token_char_def lower_char_def dash_def)

lemma normalize_token_chars: "c \<in> set (normalize_field_name ud v) \<Longrightarrow> token_char c"
  by (cases v) (auto simp: normalize_field_name_def py_lower_def split: if_splits dest!: cleaned_alnum_dash intro: lower_token)

lemma no_dd_sub_plus: "\<not> sublist [r, r] (sub_plus (\<lambda>c. c = r) r s)"
proof (induction "(\<lambda>c::nat. c = r)" r s rule: sub_plus.induct)
  case (1 r)
  then show ?case by simp
next
  case (2 r c cs)
  show ?case
  proof (cases "c = r")
    case True
    show ?thesis
    proof (cases "dropWhile (\<lambda>c. c = r) cs")
      case Nil
      have "sub_plus (\<lambda>c. c = r) r (dropWhile (\<lambda>c. c = r) cs) = []"
        by (simp only: Nil sub_plus.simps)
      with True show ?thesis by (simp add: sublist_code del: dropWhile_eq_Nil_conv)
    next
      case (Cons y ys)
      then have "y \<noteq> r" using hd_dropWhile[of "\<lambda>c. c = r" cs] by auto
      with True Cons 2 show ?thesis by (simp add: sublist_code)
    qed
  next
    case False
    with 2 show ?thesis by (cases "sub_plus (\<lambda>c. c = r) r cs") (simp_all add: sublist_code)
  qed
qed


lemma no_dd_strip: "\<not> sublist [r, r] s \<Longrightarrow> \<not> sublist [r, r] (py_strip c s)"
proof -
  assume a: "\<not> sublist [r, r] s"
  have 1: "sublist (dropWhile (\<lambda>x. x = c) s) s"
    by (simp add: suffix_dropWhile suffix_imp_sublist)
  have 2: "sublist (dropWhile (\<lambda>x. x = c) (rev (dropWhile (\<lambda>x. x = c) s))) (rev (dropWhile (\<lambda>x. x = c) s))"
    by (simp add: suffix_dropWhile suffix_imp_sublist)
  have 3: "sublist (py_strip c s) (dropWhile (\<lambda>x. x = c) s)"
    unfolding py_strip_def using 2 sublist_rev[of "dropWhile (\<lambda>x. x = c) (rev (dropWhile (\<lambda>x. x = c) s))" "rev (dropWhile (\<lambda>x. x = c) s)"] by simp
  from 3 1 have 4: "sublist (py_strip c s) s" by (rule sublist_order.order_trans)
  show ?thesis
  proof
    assume "sublist [r, r] (py_strip c s)"
    from this 4 have "sublist [r, r] s" by (rule sublist_order.order_trans)
    with a show False by simp
  qed
qed

lemma strip_ends: "py_strip c s \<noteq> [] \<Longrightarrow> hd (py_strip c s) \<noteq> c \<and> last (py_strip c s) \<noteq> c"
proof -
  assume ne: "py_strip c s \<noteq> []"
  define ys where "ys = dropWhile (\<lambda>x. x = c) s"
  define zs where "zs = dropWhile (\<lambda>x. x = c) (rev ys)"
  have ps: "py_strip c s = rev zs" by (simp add: py_strip_def zs_def ys_def)
  with ne have zne: "zs \<noteq> []" by simp
  then have hz: "hd zs \<noteq> c" unfolding zs_def using hd_dropWhile[of "\<lambda>x. x = c" "rev ys"] by blast
  from zne have yne: "ys \<noteq> []" unfolding zs_def by auto
  then have hy: "hd ys \<noteq> c" unfolding ys_def using hd_dropWhile[of "\<lambda>x. x = c" s] by blast
  from yne hy have "hd ys \<in> set (rev ys)" "\<not> (hd ys = c)" by auto
  then have "last zs = last (rev ys)" unfolding zs_def by (rule dropWhile_last)
  then have "last zs = hd ys" using yne by (simp add: last_rev)
  with hz hy zne show ?thesis by (simp add: ps hd_rev last_rev)
qed

lemma no_dd_map: "(\<And>c. f c = r \<longleftrightarrow> c = r) \<Longrightarrow> \<not> sublist [r, r] s \<Longrightarrow> \<not> sublist [r, r] (map f s)"
proof
  assume f: "\<And>c. f c = r \<longleftrightarrow> c = r" and a: "\<not> sublist [r, r] s" and b: "sublist [r, r] (map f s)"
  from b obtain xs' where x: "sublist xs' s" "[r, r] = map f xs'" by (auto dest: sublist_map_rightE)
  from x(2) obtain a1 a2 where xs: "xs' = [a1, a2]" "f a1 = r" "f a2 = r"
    by (auto simp: Cons_eq_map_conv)
  with f have "xs' = [r, r]" by simp
  with x(1) a show False by simp
qed

lemma lower_char_dash: "lower_char c = dash \<longleftrightarrow> c = dash"
  by (auto simp: lower_char_def dash_def)

lemma normalize_is_token: "is_token (normalize_field_name ud v)"
proof (cases "\<exists>s. v = JStr s \<and> s \<noteq> []")
  case False
  then have "normalize_field_name ud v = []" by (cases v) (auto simp: normalize_field_name_def)
  then show ?thesis by (simp add: is_token_def)
next
  case True
  then obtain s where v: "v = JStr s" "s \<noteq> []" by blast
  define x where "x = sub_each (\<lambda>c. \<not> alnum_dash c) dash
     (sub_plus py_isspace dash (filter (\<lambda>char. combining ud char = 0) (normalize_NFKD ud s)))"
  have cl: "cleaned_of ud s = py_strip dash (sub_plus (\<lambda>c. c = dash) dash x)"
    by (simp add: cleaned_of_def x_def Let_def)
  have n: "normalize_field_name ud v = map lower_char (cleaned_of ud s)"
    using v by (simp add: normalize_field_name_def py_lower_def)
  have 1: "\<not> sublist [dash, dash] (cleaned_of ud s)"
    unfolding cl by (rule no_dd_strip) (rule no_dd_sub_plus)
  have 2: "\<not> sublist [dash, dash] (map lower_char (cleaned_of ud s))"
    using lower_char_dash 1 by (rule no_dd_map)
  have 3: "cleaned_of ud s \<noteq> [] \<Longrightarrow> hd (cleaned_of ud s) \<noteq> dash \<and> last (cleaned_of ud s) \<noteq> dash"
    unfolding cl by (rule strip_ends)
  have 4: "map lower_char (cleaned_of ud s) \<noteq> [] \<Longrightarrow>
      hd (map lower_char (cleaned_of ud s)) \<noteq> dash \<and> last (map lower_char (cleaned_of ud s)) \<noteq> dash"
    using 3 by (simp add: hd_map last_map lower_char_dash)
  have 5: "\<forall>c\<in>set (map lower_char (cleaned_of ud s)). token_char c"
    using normalize_token_chars[of _ ud v] unfolding n by blast
  show ?thesis unfolding is_token_def n
    using 2 4 5 by simp
qed

lemma sub_plus_none: "\<forall>c\<in>set s. \<not> p c \<Longrightarrow> sub_plus p r s = s"
  by (induction s) auto

lemma sub_plus_no_dd: "\<not> sublist [r, r] s \<Longrightarrow> sub_plus (\<lambda>c. c = r) r s = s"
proof (induction s)
  case Nil
  then show ?case by simp
next
  case (Cons c cs)
  from Cons.prems have ncs: "\<not> sublist [r, r] cs" by (auto simp: sublist_code)
  show ?case
  proof (cases "c = r")
    case False
    with Cons.IH ncs show ?thesis by simp
  next
    case True
    have "dropWhile (\<lambda>c. c = r) cs = cs"
    proof (cases cs)
      case Nil
      then show ?thesis by simp
    next
      case (Cons y ys)
      with True Cons.prems have "y \<noteq> r" by (auto simp: sublist_code)
      with Cons show ?thesis by simp
    qed
    with True Cons.IH ncs show ?thesis by simp
  qed
qed

lemma dropWhile_hd_id: "xs \<noteq> [] \<Longrightarrow> \<not> P (hd xs) \<Longrightarrow> dropWhile P xs = xs"
  by (cases xs) auto

lemma py_strip_id: "s = [] \<or> (hd s \<noteq> c \<and> last s \<noteq> c) \<Longrightarrow> py_strip c s = s"
proof (cases s)
  case Nil
  then show ?thesis by (simp add: py_strip_def)
next
  case (Cons a as)
  assume "s = [] \<or> (hd s \<noteq> c \<and> last s \<noteq> c)"
  with Cons have h: "a \<noteq> c" and l: "last s \<noteq> c" by auto
  from h Cons have 1: "dropWhile (\<lambda>x. x = c) s = s" by simp
  from Cons have "rev s \<noteq> []" and "hd (rev s) = last s" by (simp_all add: hd_rev)
  with l have 2: "dropWhile (\<lambda>x. x = c) (rev s) = rev s" by (simp add: dropWhile_hd_id)
  show ?thesis by (simp add: py_strip_def 1 2)
qed

lemma token_char_facts:
  "token_char c \<Longrightarrow> c < 128 \<and> \<not> py_isspace c \<and> alnum_dash c \<and> lower_char c = c"
  by (auto simp: token_char_def py_isspace_def alnum_dash_def lower_char_def dash_def)

lemma token_fixed_point:
  assumes ud: "ascii_fixed ud" and t: "is_token t"
  shows "normalize_field_name ud (JStr t) = t"
proof (cases "t = []")
  case True
  then show ?thesis by (simp add: normalize_field_name_def)
next
  case False
  from t have chars: "\<forall>c\<in>set t. token_char c" and ndd: "\<not> sublist [dash, dash] t"
    and ends: "hd t \<noteq> dash \<and> last t \<noteq> dash" using False by (auto simp: is_token_def)
  from chars have a: "\<forall>c\<in>set t. c < 128" using token_char_facts by blast
  with ud have 1: "normalize_NFKD ud t = t" by (simp add: ascii_fixed_def)
  from a ud have 2: "filter (\<lambda>char. combining ud char = 0) t = t"
    by (auto simp: ascii_fixed_def)
  have 3: "sub_plus py_isspace dash t = t"
    by (rule sub_plus_none) (use chars token_char_facts in blast)
  have 4: "sub_each (\<lambda>c. \<not> alnum_dash c) dash t = t"
    unfolding sub_each_def using chars token_char_facts by (simp add: map_idI)
  have 5: "sub_plus (\<lambda>c. c = dash) dash t = t" using ndd by (rule sub_plus_no_dd)
  have 6: "py_strip dash t = t" using ends by (simp add: py_strip_id)
  have "cleaned_of ud t = t" by (simp add: cleaned_of_def 1 2 3 4 5 6)
  moreover have "py_lower t = t"
    unfolding py_lower_def using chars token_char_facts by (simp add: map_idI)
  ultimately show ?thesis using False by (simp add: normalize_field_name_def)
qed

lemma ascii_fixed_fragment: "ascii_fixed ud_fragment"
proof -
  have "concat (map (\<lambda>c. if c = 233 then [101, 769] else [c]) s) = s" if "\<forall>c\<in>set s. c < 128" for s :: ustr
    using that by (induction s) auto
  then show ?thesis by (simp add: ascii_fixed_def ud_fragment_def)
qed


text \<open>
  C6. \<open>normalize_field_name\<close> is a function of its argument and of nothing else, with
  a value for every argument (it has no raising branch): an argument that is empty or not
  a \<open>str\<close> gives the empty token, and every character of every output is in
  \<open>[a-z0-9-]\<close>. On the display name Statut D<U+00E9>ploiement the output is
  \<open>statut-deploiement\<close>, for every Unicode database that decomposes U+00E9 into
  \<open>e\<close> and the combining mark U+0301 and gives ASCII characters the combining class 0;
  on the empty string it is the empty string.
\<close>

theorem normalize_field_name_total:
  assumes nfkd: "normalize_NFKD ud (ustr_of ''Statut D'' @ [233] @ ustr_of ''ploiement'')
                 = ustr_of ''Statut De'' @ [769] @ ustr_of ''ploiement''"
    and mark: "combining ud 769 \<noteq> 0"
    and ascii: "\<forall>c<128. combining ud c = 0"
  shows "(\<forall>v. \<not> truthy v \<or> \<not> is_str v \<longrightarrow> normalize_field_name ud v = [])
    \<and> (\<forall>v. \<forall>c\<in>set (normalize_field_name ud v). token_char c)
    \<and> normalize_field_name ud (JStr (ustr_of ''Statut D'' @ [233] @ ustr_of ''ploiement''))
        = ustr_of ''statut-deploiement''
    \<and> normalize_field_name ud (JStr []) = []"
proof -
  have 1: "\<forall>v. \<not> truthy v \<or> \<not> is_str v \<longrightarrow> normalize_field_name ud v = []"
    by (simp add: normalize_field_name_def)
  have 2: "\<forall>v. \<forall>c\<in>set (normalize_field_name ud v). token_char c"
    using normalize_token_chars by blast
  have f: "filter (\<lambda>char. combining ud char = 0) (ustr_of ''Statut De'' @ [769] @ ustr_of ''ploiement'')
      = ustr_of ''Statut Deploiement''"
    using mark ascii by (simp add: ustr_of_def)
  have c: "cleaned_of ud (ustr_of ''Statut D'' @ [233] @ ustr_of ''ploiement'') = ustr_of ''Statut-Deploiement''"
    unfolding cleaned_of_def nfkd Let_def f
    by (simp add: ustr_of_def py_strip_def sub_each_def alnum_dash_def dash_def py_isspace_def)
  have 3: "normalize_field_name ud (JStr (ustr_of ''Statut D'' @ [233] @ ustr_of ''ploiement''))
        = ustr_of ''statut-deploiement''"
  proof -
    have ne: "ustr_of ''Statut D'' @ [233] @ ustr_of ''ploiement'' \<noteq> []" by simp
    have "normalize_field_name ud (JStr s) = py_lower (cleaned_of ud s)" if "s \<noteq> []" for s
      using that by (simp add: normalize_field_name_def)
    from this [OF ne] have "normalize_field_name ud (JStr (ustr_of ''Statut D'' @ [233] @ ustr_of ''ploiement''))
        = py_lower (ustr_of ''Statut-Deploiement'')" by (simp only: c)
    also have "\<dots> = ustr_of ''statut-deploiement''"
      by (simp add: ustr_of_def py_lower_def lower_char_def)
    finally show ?thesis .
  qed
  have 4: "normalize_field_name ud (JStr []) = []"
    by (simp add: normalize_field_name_def)
  from 1 2 3 4 show ?thesis by blast
qed

theorem normalize_field_name_total_witness:
  "normalize_NFKD ud_fragment (ustr_of ''Statut D'' @ [233] @ ustr_of ''ploiement'')
     = ustr_of ''Statut De'' @ [769] @ ustr_of ''ploiement''
   \<and> combining ud_fragment 769 \<noteq> 0
   \<and> list_all (\<lambda>c. combining ud_fragment c = 0) [0..<128]
   \<and> normalize_field_name ud_fragment (JNum 5) = []
   \<and> list_all token_char (normalize_field_name ud_fragment (JStr (ustr_of ''Root Cause'')))
   \<and> normalize_field_name ud_fragment (JStr (ustr_of ''Statut D'' @ [233] @ ustr_of ''ploiement''))
        = ustr_of ''statut-deploiement''"
proof -
  have h1: "normalize_NFKD ud_fragment (ustr_of ''Statut D'' @ [233] @ ustr_of ''ploiement'')
     = ustr_of ''Statut De'' @ [769] @ ustr_of ''ploiement''"
    by (simp add: ud_fragment_def ustr_of_def)
  have h2: "combining ud_fragment 769 \<noteq> 0" by (simp add: ud_fragment_def)
  have h3: "\<forall>c<128. combining ud_fragment c = 0" by (simp add: ud_fragment_def)
  have h4: "\<not> truthy (JNum 5) \<or> \<not> is_str (JNum 5)" by simp
  note t = normalize_field_name_total [OF h1 h2 h3]
  from t h4 have a: "normalize_field_name ud_fragment (JNum 5) = []" by blast
  from t have b: "list_all token_char (normalize_field_name ud_fragment (JStr (ustr_of ''Root Cause'')))"
    unfolding list_all_iff by blast
  from h3 have c: "list_all (\<lambda>c. combining ud_fragment c = 0) [0..<128]"
    unfolding list_all_iff by simp
  from t have d: "normalize_field_name ud_fragment (JStr (ustr_of ''Statut D'' @ [233] @ ustr_of ''ploiement''))
        = ustr_of ''statut-deploiement''" by blast
  from h1 h2 a b c d show ?thesis by blast
qed

text \<open>
  C7. \<open>normalize_field_name\<close> is idempotent: normalizing its own output gives that
  output again, and every string of the shape of a token (characters of \<open>[a-z0-9-]\<close>,
  hyphens single and not at the ends) is a fixed point. The Unicode database is any one
  that leaves ASCII strings alone.
\<close>

theorem normalize_field_name_idempotent:
  assumes "ascii_fixed ud"
  shows "(normalize_field_name ud x \<noteq> [] \<longrightarrow>
          normalize_field_name ud (JStr (normalize_field_name ud x)) = normalize_field_name ud x)
    \<and> (is_token t \<longrightarrow> normalize_field_name ud (JStr t) = t)"
  using assms token_fixed_point normalize_is_token by blast

theorem normalize_field_name_idempotent_witness:
  "ascii_fixed ud_fragment
   \<and> normalize_field_name ud_fragment (JStr (ustr_of ''Root Cause'')) = ustr_of ''root-cause''
   \<and> ustr_of ''root-cause'' \<noteq> []
   \<and> normalize_field_name ud_fragment (JStr (normalize_field_name ud_fragment (JStr (ustr_of ''Root Cause''))))
       = normalize_field_name ud_fragment (JStr (ustr_of ''Root Cause''))
   \<and> is_token (ustr_of ''a-b'')
   \<and> normalize_field_name ud_fragment (JStr (ustr_of ''a-b'')) = ustr_of ''a-b''"
proof -
  have n: "normalize_field_name ud_fragment (JStr (ustr_of ''Root Cause'')) = ustr_of ''root-cause''"
    by (simp add: normalize_field_name_def cleaned_of_def ud_fragment_def ustr_of_def
        py_lower_def lower_char_def py_strip_def sub_each_def alnum_dash_def dash_def py_isspace_def)
  have ne: "ustr_of ''root-cause'' \<noteq> []" by (simp add: ustr_of_def)
  have tk: "is_token (ustr_of ''a-b'')"
    by (simp add: is_token_def token_char_def ustr_of_def dash_def sublist_code)
  from normalize_field_name_idempotent [OF ascii_fixed_fragment, of "JStr (ustr_of ''Root Cause'')" "ustr_of ''a-b''"]
    n ne tk ascii_fixed_fragment
  show ?thesis by simp
qed

section \<open>Properties of the record transformer\<close>

lemma get_normalized_field_name_list:
  "get_normalized_field_name ud (JList entries) k = Inr (field_token ud entries k)"
  by (simp add: get_normalized_field_name_def get_correspond_name_by_field_id_def field_token_def)

lemma rename_customfield_fields:
  assumes "map_of obj (ustr_of ''fields'') = Some (JDict d)"
  shows "rename_customfield (JDict obj) old new
         = (None, JDict (AList.update (ustr_of ''fields'') (JDict (rename_entry d old new)) obj))"
  using assms
  by (simp add: rename_customfield_def rename_entry_def update_triv split: option.split)

lemma rename_loop_fields:
  assumes "map_of obj (ustr_of ''fields'') = Some (JDict d)"
  shows "rename_loop ud (JList entries) ks (JDict obj)
         = (None, JDict (AList.update (ustr_of ''fields'') (JDict (fields_loop ud entries ks d)) obj))"
  using assms
proof (induction ks arbitrary: obj d)
  case Nil
  then show ?case by (simp add: update_triv)
next
  case (Cons k ks)
  show ?case
  proof (cases "field_token ud entries k \<noteq> [] \<and> field_token ud entries k \<noteq> k")
    case False
    with Cons.IH [OF Cons.prems] show ?thesis
      by (auto simp: get_normalized_field_name_list)
  next
    case True
    let ?d' = "rename_entry d k (field_token ud entries k)"
    let ?obj' = "AList.update (ustr_of ''fields'') (JDict ?d') obj"
    have m: "map_of ?obj' (ustr_of ''fields'') = Some (JDict ?d')" by (simp add: update_conv')
    from Cons.IH [OF m] True Cons.prems show ?thesis
      by (simp add: get_normalized_field_name_list rename_customfield_fields update_last)
  qed
qed

lemma transform_issue_fields:
  assumes "map_of obj (ustr_of ''fields'') = Some (JDict d)"
  shows "transform_issue ud (JDict obj) (JList entries)
         = (None, JDict (AList.update (ustr_of ''fields'')
              (JDict (fields_loop ud entries (filter is_custom (map fst d)) d)) obj))"
proof -
  have "get_custom_fields_names (JDict obj) = Inr (filter is_custom (map fst d))"
    using assms by (simp add: get_custom_fields_names_def dict_get_def is_custom_def [abs_def])
  with assms show ?thesis
    by (simp add: transform_issue_def rename_loop_fields)
qed

lemma token_not_custom: "is_token t \<Longrightarrow> \<not> is_custom t"
proof
  assume t: "is_token t" and c: "is_custom t"
  from c have "set (ustr_of ''customfield_'') \<subseteq> set t"
    unfolding is_custom_def by (auto simp: prefix_def)
  moreover have "95 \<in> set (ustr_of ''customfield_'')" by (simp add: ustr_of_def)
  ultimately have "95 \<in> set t" by blast
  with t have "token_char 95" by (simp add: is_token_def)
  then show False by (simp add: token_char_def dash_def)
qed

lemma field_token_is_token: "is_token (field_token ud entries k)"
proof (cases "truthy (find_field entries k)")
  case True
  then show ?thesis by (simp add: field_token_def normalize_is_token)
next
  case False
  then show ?thesis by (simp add: field_token_def is_token_def)
qed

lemma field_token_not_custom: "\<not> is_custom (field_token ud entries k)"
  by (rule token_not_custom) (rule field_token_is_token)

lemma map_of_rename_entry:
  "x \<noteq> old \<Longrightarrow> x \<noteq> new \<Longrightarrow> map_of (rename_entry d old new) x = map_of d x"
  by (simp add: rename_entry_def update_conv' delete_conv' split: option.split)


lemma dom_rename_entry:
  "dom (map_of (rename_entry d old new))
   = (if old \<in> dom (map_of d) then insert new (dom (map_of d) - {old}) else dom (map_of d))"
  by (auto simp: rename_entry_def update_conv' delete_conv' split: option.splits if_splits)

lemma fields_loop_frame:
  "x \<notin> set ks \<Longrightarrow> \<forall>k\<in>set ks. field_token ud entries k \<noteq> x
   \<Longrightarrow> map_of (fields_loop ud entries ks d) x = map_of d x"
  by (induction ks arbitrary: d) (auto simp: map_of_rename_entry)

lemma fields_loop_keys:
  "x \<in> dom (map_of (fields_loop ud entries ks d)) \<Longrightarrow>
     (x \<in> dom (map_of d) \<and> \<not> (x \<in> set ks \<and> field_token ud entries x \<noteq> []))
     \<or> (\<exists>k\<in>set ks. field_token ud entries k = x \<and> x \<noteq> [])"
proof (induction ks arbitrary: d)
  case Nil
  then show ?case by simp
next
  case (Cons k ks)
  show ?case
  proof (cases "field_token ud entries k \<noteq> [] \<and> field_token ud entries k \<noteq> k")
    case False
    with Cons.prems have "x \<in> dom (map_of (fields_loop ud entries ks d))" by simp
    from Cons.IH [OF this] False show ?thesis by auto
  next
    case True
    with Cons.prems have "x \<in> dom (map_of (fields_loop ud entries ks (rename_entry d k (field_token ud entries k))))"
      by simp
    from Cons.IH [OF this] True show ?thesis
      unfolding dom_rename_entry by (auto split: if_splits)
  qed
qed

lemma fields_loop_keeps:
  "x \<in> dom (map_of d) \<Longrightarrow> x \<notin> set ks \<Longrightarrow> x \<in> dom (map_of (fields_loop ud entries ks d))"
proof (induction ks arbitrary: d)
  case Nil
  then show ?case by simp
next
  case (Cons k ks)
  then have "x \<in> dom (map_of (rename_entry d k (field_token ud entries k)))"
    unfolding dom_rename_entry by auto
  with Cons show ?case by auto
qed

lemma fields_loop_noop:
  "\<forall>k\<in>set ks. field_token ud entries k = [] \<Longrightarrow> fields_loop ud entries ks d = d"
  by (induction ks arbitrary: d) auto



lemma normalize_root_cause:
  assumes "ascii_fixed ud"
  shows "normalize_field_name ud (JStr (ustr_of ''Root Cause'')) = ustr_of ''root-cause''"
proof -
  have a: "\<forall>c\<in>set (ustr_of ''Root Cause''). c < 128" by (simp add: ustr_of_def)
  with assms have 1: "normalize_NFKD ud (ustr_of ''Root Cause'') = ustr_of ''Root Cause''"
    by (simp add: ascii_fixed_def)
  from a assms have 2: "filter (\<lambda>char. combining ud char = 0) (ustr_of ''Root Cause'') = ustr_of ''Root Cause''"
    by (auto simp: ascii_fixed_def)
  have c: "cleaned_of ud (ustr_of ''Root Cause'') = ustr_of ''Root-Cause''"
    unfolding cleaned_of_def 1 Let_def 2
    by (simp add: ustr_of_def py_strip_def sub_each_def alnum_dash_def dash_def py_isspace_def)
  have ne: "ustr_of ''Root Cause'' \<noteq> []" by (simp add: ustr_of_def)
  have "normalize_field_name ud (JStr s) = py_lower (cleaned_of ud s)" if "s \<noteq> []" for s
    using that by (simp add: normalize_field_name_def)
  from this [OF ne] have "normalize_field_name ud (JStr (ustr_of ''Root Cause''))
      = py_lower (ustr_of ''Root-Cause'')" by (simp only: c)
  also have "\<dots> = ustr_of ''root-cause''"
    by (simp add: ustr_of_def py_lower_def lower_char_def)
  finally show ?thesis .
qed

text \<open>
  C5. For the issue whose \<open>fields\<close> is \<open>{"customfield_100": "X"}\<close> and the catalog
  \<open>[{"id": "customfield_100", "name": "Root Cause"}]\<close>, \<open>transform_issue\<close> returns the
  issue with \<open>fields\<close> equal to \<open>{"root-cause": "X"}\<close>: the value is under the normalized
  key and the key \<open>customfield_100\<close> is gone. The Unicode database is any one that leaves
  ASCII strings alone.
\<close>

theorem transform_issue_root_cause:
  assumes "ascii_fixed ud"
  shows "transform_issue ud
           (JDict [(ustr_of ''fields'', JDict [(ustr_of ''customfield_100'', JStr (ustr_of ''X''))])])
           (JList [JDict [(ustr_of ''id'', JStr (ustr_of ''customfield_100'')),
                          (ustr_of ''name'', JStr (ustr_of ''Root Cause''))]])
         = (None, JDict [(ustr_of ''fields'', JDict [(ustr_of ''root-cause'', JStr (ustr_of ''X''))])])"
proof -
  have ne: "ustr_of ''Root Cause'' \<noteq> []" by (simp add: ustr_of_def)
  have idname: "ustr_of ''name'' \<noteq> ustr_of ''id''" by (simp add: ustr_of_def)
  have tok: "field_token ud [JDict [(ustr_of ''id'', JStr (ustr_of ''customfield_100'')),
                          (ustr_of ''name'', JStr (ustr_of ''Root Cause''))]] (ustr_of ''customfield_100'')
      = ustr_of ''root-cause''"
    using ne idname by (simp add: field_token_def dict_get_def normalize_root_cause [OF assms])
  have cust: "is_custom (ustr_of ''customfield_100'')"
    by (simp add: is_custom_def ustr_of_def)
  have d: "ustr_of ''root-cause'' \<noteq> [] \<and> ustr_of ''root-cause'' \<noteq> ustr_of ''customfield_100''"
    by (simp add: ustr_of_def)
  have m: "map_of [(ustr_of ''fields'', JDict [(ustr_of ''customfield_100'', JStr (ustr_of ''X''))])]
      (ustr_of ''fields'') = Some (JDict [(ustr_of ''customfield_100'', JStr (ustr_of ''X''))])"
    by simp
  show ?thesis
    unfolding transform_issue_fields [OF m]
    using cust d by (simp add: tok rename_entry_def)
qed

theorem transform_issue_root_cause_witness:
  "ascii_fixed ud_fragment \<and>
   transform_issue ud_fragment
           (JDict [(ustr_of ''fields'', JDict [(ustr_of ''customfield_100'', JStr (ustr_of ''X''))])])
           (JList [JDict [(ustr_of ''id'', JStr (ustr_of ''customfield_100'')),
                          (ustr_of ''name'', JStr (ustr_of ''Root Cause''))]])
         = (None, JDict [(ustr_of ''fields'', JDict [(ustr_of ''root-cause'', JStr (ustr_of ''X''))])])"
  using transform_issue_root_cause [OF ascii_fixed_fragment] ascii_fixed_fragment by simp


lemma transform_issue_fields_not_dict:
  assumes "map_of obj (ustr_of ''fields'') = Some fv" and "\<not> is_dict fv"
  shows "transform_issue ud (JDict obj) (JList entries) = (Some AttributeError, JDict obj)"
  using assms
  by (cases fv) (simp_all add: transform_issue_def get_custom_fields_names_def dict_get_def)

text \<open>
  C3 (as the code has it). \<open>transform_issue\<close> raises a \<open>ValueError\<close> exactly when the
  issue is not a dict, or it is a dict without the key \<open>fields\<close>, or the catalog is not a
  list; the three are told apart by their message and tested in this order. When the key
  \<open>fields\<close> is there but its value is not a dict, the call raises an \<open>AttributeError\<close>
  (no \<open>ValueError\<close>). No other exception is raised, and whenever the call raises, the
  issue is as it was.
\<close>

theorem transform_issue_validation:
  "(fst (transform_issue ud issue md) = Some (ValueError e) \<longleftrightarrow>
      (e = IssueNotDict \<and> \<not> is_dict issue)
      \<or> (e = FieldsKeyMissing \<and> is_dict issue \<and> \<not> has_key (ustr_of ''fields'') issue)
      \<or> (e = MetadataNotList \<and> is_dict issue \<and> has_key (ustr_of ''fields'') issue
           \<and> \<not> is_list md))
   \<and> (fst (transform_issue ud issue md) = Some AttributeError \<longleftrightarrow>
      (\<exists>obj. issue = JDict obj \<and> has_key (ustr_of ''fields'') issue \<and> is_list md
         \<and> \<not> is_dict (dict_get obj (ustr_of ''fields''))))
   \<and> (fst (transform_issue ud issue md) \<noteq> None \<longrightarrow>
        snd (transform_issue ud issue md) = issue
        \<and> (fst (transform_issue ud issue md) = Some AttributeError
            \<or> (\<exists>e'. fst (transform_issue ud issue md) = Some (ValueError e'))))"
proof (cases "is_dict issue \<and> has_key (ustr_of ''fields'') issue \<and> is_list md")
  case False
  then show ?thesis by (cases e) (auto simp: transform_issue_def)
next
  case True
  then obtain obj entries fv where i: "issue = JDict obj" "md = JList entries"
    and m: "map_of obj (ustr_of ''fields'') = Some fv"
    by (cases issue; cases md) auto
  show ?thesis
  proof (cases "is_dict fv")
    case False
    from transform_issue_fields_not_dict [OF m False] m False show ?thesis
      by (simp add: i dict_get_def)
  next
    case d: True
    then obtain d where "fv = JDict d" by (cases fv) auto
    with m transform_issue_fields [of obj d ud entries] show ?thesis
      by (simp add: i dict_get_def)
  qed
qed

theorem transform_issue_validation_witness:
  "transform_issue ud_fragment (JDict []) (JList [])
     = (Some (ValueError FieldsKeyMissing), JDict [])"
proof -
  have "is_dict (JDict []) \<and> \<not> has_key (ustr_of ''fields'') (JDict [])" by simp
  with transform_issue_validation [of ud_fragment "JDict []" "JList []" FieldsKeyMissing]
  have "fst (transform_issue ud_fragment (JDict []) (JList [])) = Some (ValueError FieldsKeyMissing)"
    and "snd (transform_issue ud_fragment (JDict []) (JList [])) = JDict []"
    by auto
  then show ?thesis by (simp add: prod_eq_iff)
qed

theorem transform_issue_validation_counterexample:
  "transform_issue ud_fragment (JDict [(ustr_of ''fields'', JNull)]) (JList [])
     = (Some AttributeError, JDict [(ustr_of ''fields'', JNull)])"
  by (simp add: transform_issue_def get_custom_fields_names_def dict_get_def)








text \<open>
  C9. \<open>transform_issue\<close> is idempotent: for an issue that is a dict whose \<open>fields\<close> is a
  dict, and a catalog that is a list, the call returns normally, and a second call on its
  result with the same catalog returns that result unchanged. The reason is the one the
  claim gives: the new name found for a key never contains an underscore, so it is not a
  dynamic field name.
\<close>

theorem transform_issue_idempotent:
  assumes "map_of obj (ustr_of ''fields'') = Some (JDict d)"
  shows "\<exists>issue'. transform_issue ud (JDict obj) (JList entries) = (None, issue')
           \<and> transform_issue ud issue' (JList entries) = (None, issue')
           \<and> (\<forall>k t. get_normalized_field_name ud (JList entries) k = Inr t
                 \<longrightarrow> 95 \<notin> set t \<and> \<not> is_custom t)"
proof -
  let ?ks = "filter is_custom (map fst d)"
  define d' where "d' = fields_loop ud entries ?ks d"
  define obj' where "obj' = AList.update (ustr_of ''fields'') (JDict d') obj"
  have first: "transform_issue ud (JDict obj) (JList entries) = (None, JDict obj')"
    unfolding obj'_def d'_def by (rule transform_issue_fields [OF assms])
  have m': "map_of obj' (ustr_of ''fields'') = Some (JDict d')"
    by (simp add: obj'_def update_conv')
  have "field_token ud entries x = []" if x: "x \<in> set (filter is_custom (map fst d'))" for x
  proof -
    from x have c: "is_custom x" and "x \<in> dom (map_of d')"
      by (auto simp: dom_map_of_conv_image_fst)
    then have "(x \<in> dom (map_of d) \<and> \<not> (x \<in> set ?ks \<and> field_token ud entries x \<noteq> []))
       \<or> (\<exists>k\<in>set ?ks. field_token ud entries k = x \<and> x \<noteq> [])"
      unfolding d'_def using fields_loop_keys by blast
    then show ?thesis
    proof
      assume "x \<in> dom (map_of d) \<and> \<not> (x \<in> set ?ks \<and> field_token ud entries x \<noteq> [])"
      with c show ?thesis by (auto simp: dom_map_of_conv_image_fst)
    next
      assume "\<exists>k\<in>set ?ks. field_token ud entries k = x \<and> x \<noteq> []"
      then obtain k where "field_token ud entries k = x" by blast
      with field_token_not_custom [of ud entries k] c show ?thesis by simp
    qed
  qed
  then have "fields_loop ud entries (filter is_custom (map fst d')) d' = d'"
    by (simp add: fields_loop_noop)
  with transform_issue_fields [OF m', of ud entries]
  have second: "transform_issue ud (JDict obj') (JList entries) = (None, JDict obj')"
    by (simp add: obj'_def update_last)
  have third: "95 \<notin> set t \<and> \<not> is_custom t"
    if "get_normalized_field_name ud (JList entries) k = Inr t" for k t
  proof -
    from that have t: "t = field_token ud entries k" by (simp add: get_normalized_field_name_list)
    have "is_token t" unfolding t by (rule field_token_is_token)
    then have "\<forall>c\<in>set t. token_char c" by (simp add: is_token_def)
    then have "95 \<notin> set t" by (auto simp: token_char_def dash_def)
    with field_token_not_custom [of ud entries k] t show ?thesis by simp
  qed
  from first second third show ?thesis by blast
qed


theorem transform_issue_idempotent_witness:
  "\<exists>issue'.
     transform_issue ud_fragment
       (JDict [(ustr_of ''key'', JStr (ustr_of ''K-1'')),
               (ustr_of ''fields'', JDict [(ustr_of ''customfield_2'', JStr (ustr_of ''B''))])])
       (JList [JDict [(ustr_of ''id'', JStr (ustr_of ''customfield_2'')), (ustr_of ''name'', JStr (ustr_of ''root cause''))]])
       = (None, issue')
     \<and> transform_issue ud_fragment issue'
       (JList [JDict [(ustr_of ''id'', JStr (ustr_of ''customfield_2'')), (ustr_of ''name'', JStr (ustr_of ''root cause''))]])
       = (None, issue')"
proof -
  have m: "map_of [(ustr_of ''key'', JStr (ustr_of ''K-1'')),
               (ustr_of ''fields'', JDict [(ustr_of ''customfield_2'', JStr (ustr_of ''B''))])] (ustr_of ''fields'')
     = Some (JDict [(ustr_of ''customfield_2'', JStr (ustr_of ''B''))])"
    by (simp add: ustr_of_def)
  from transform_issue_idempotent [OF m] show ?thesis by blast
qed

text \<open>
  C10. \<open>transform_issue\<close> writes to the \<open>fields\<close> dict only: for an issue that is a dict
  whose \<open>fields\<close> is a dict, and a catalog that is a list, the call returns the issue with
  the same top-level keys in the same order and the same value under every key but
  \<open>fields\<close>; every key of \<open>fields\<close> that does not start with \<open>customfield_\<close> is still a key
  of \<open>fields\<close>, and it has its value still when it is not the new name of a dynamic field.
\<close>

theorem transform_issue_frame:
  assumes "map_of obj (ustr_of ''fields'') = Some (JDict d)"
  shows "\<exists>obj' d'. transform_issue ud (JDict obj) (JList entries) = (None, JDict obj')
           \<and> map_of obj' (ustr_of ''fields'') = Some (JDict d')
           \<and> map fst obj' = map fst obj
           \<and> (\<forall>x. x \<noteq> ustr_of ''fields'' \<longrightarrow> map_of obj' x = map_of obj x)
           \<and> (\<forall>x. map_of d x \<noteq> None \<and> \<not> is_custom x \<longrightarrow> map_of d' x \<noteq> None)
           \<and> (\<forall>x. \<not> is_custom x
                 \<and> (\<forall>k\<in>set (map fst d). is_custom k \<longrightarrow>
                        get_normalized_field_name ud (JList entries) k \<noteq> Inr x)
                 \<longrightarrow> map_of d' x = map_of d x)"
proof -
  let ?ks = "filter is_custom (map fst d)"
  define d' where "d' = fields_loop ud entries ?ks d"
  define obj' where "obj' = AList.update (ustr_of ''fields'') (JDict d') obj"
  have 1: "transform_issue ud (JDict obj) (JList entries) = (None, JDict obj')"
    unfolding obj'_def d'_def by (rule transform_issue_fields [OF assms])
  have 2: "map_of obj' (ustr_of ''fields'') = Some (JDict d')"
    by (simp add: obj'_def update_conv')
  from assms have "ustr_of ''fields'' \<in> set (map fst obj)"
    by (metis map_of_eq_None_iff option.distinct(1) set_map)
  then have 3: "map fst obj' = map fst obj" by (simp add: obj'_def update_keys)
  have 4: "\<forall>x. x \<noteq> ustr_of ''fields'' \<longrightarrow> map_of obj' x = map_of obj x"
    by (simp add: obj'_def update_conv')
  have 5: "map_of d' x \<noteq> None" if "map_of d x \<noteq> None \<and> \<not> is_custom x" for x
  proof -
    from that have "x \<in> dom (map_of d)" and "x \<notin> set ?ks" by auto
    then have "x \<in> dom (map_of d')" unfolding d'_def by (rule fields_loop_keeps)
    then show ?thesis by auto
  qed
  have 6: "map_of d' x = map_of d x"
    if "\<not> is_custom x \<and> (\<forall>k\<in>set (map fst d). is_custom k \<longrightarrow>
                        get_normalized_field_name ud (JList entries) k \<noteq> Inr x)" for x
  proof -
    from that have "x \<notin> set ?ks" and "\<forall>k\<in>set ?ks. field_token ud entries k \<noteq> x"
      by (auto simp: get_normalized_field_name_list)
    then show ?thesis unfolding d'_def by (rule fields_loop_frame)
  qed
  from 1 2 3 4 5 6 show ?thesis by blast
qed

theorem transform_issue_frame_witness:
  "\<exists>obj' d'.
     transform_issue ud_fragment
       (JDict [(ustr_of ''key'', JStr (ustr_of ''K-1'')),
               (ustr_of ''fields'', JDict [(ustr_of ''summary'', JStr (ustr_of ''S'')),
                                           (ustr_of ''customfield_2'', JStr (ustr_of ''B''))])])
       (JList [JDict [(ustr_of ''id'', JStr (ustr_of ''customfield_2'')), (ustr_of ''name'', JStr (ustr_of ''root cause''))]])
       = (None, JDict obj')
     \<and> map_of obj' (ustr_of ''fields'') = Some (JDict d')
     \<and> map fst obj' = [ustr_of ''key'', ustr_of ''fields'']
     \<and> map_of obj' (ustr_of ''key'') = Some (JStr (ustr_of ''K-1''))
     \<and> map_of d' (ustr_of ''summary'') \<noteq> None"
proof -
  let ?d = "[(ustr_of ''summary'', JStr (ustr_of ''S'')), (ustr_of ''customfield_2'', JStr (ustr_of ''B''))]"
  let ?obj = "[(ustr_of ''key'', JStr (ustr_of ''K-1'')), (ustr_of ''fields'', JDict ?d)]"
  have kf: "ustr_of ''key'' \<noteq> ustr_of ''fields''" by (simp add: ustr_of_def)
  have m: "map_of ?obj (ustr_of ''fields'') = Some (JDict ?d)" using kf by simp
  have s: "map_of ?d (ustr_of ''summary'') \<noteq> None \<and> \<not> is_custom (ustr_of ''summary'')"
    by (simp add: is_custom_def ustr_of_def)
  from transform_issue_frame [OF m, of ud_fragment
      "[JDict [(ustr_of ''id'', JStr (ustr_of ''customfield_2'')), (ustr_of ''name'', JStr (ustr_of ''root cause''))]]"]
  obtain obj' d' where r: "transform_issue ud_fragment (JDict ?obj)
       (JList [JDict [(ustr_of ''id'', JStr (ustr_of ''customfield_2'')), (ustr_of ''name'', JStr (ustr_of ''root cause''))]])
       = (None, JDict obj')"
     "map_of obj' (ustr_of ''fields'') = Some (JDict d')"
     "map fst obj' = map fst ?obj"
     "\<forall>x. x \<noteq> ustr_of ''fields'' \<longrightarrow> map_of obj' x = map_of ?obj x"
     "\<forall>x. map_of ?d x \<noteq> None \<and> \<not> is_custom x \<longrightarrow> map_of d' x \<noteq> None"
    by blast
  from r(4) kf have k: "map_of obj' (ustr_of ''key'') = Some (JStr (ustr_of ''K-1''))" by simp
  from r(5) s have "map_of d' (ustr_of ''summary'') \<noteq> None" by blast
  with r(1,2,3) k show ?thesis by auto
qed

section \<open>Properties of save\_issue and download\_attachments\<close>



lemma requested_urls_append [simp]:
  "requested_urls (xs @ ys) = requested_urls xs @ requested_urls ys"
  by (simp add: requested_urls_def)

lemma requested_urls_fetch_one [simp]:
  "requested_urls (fetch_one e k i url name) = [url]"
  by (simp add: requested_urls_def fetch_one_def split: get_outcome.split)










section \<open>Properties of the batch orchestrator\<close>


lemma readings_Nil [simp]:
  "fields_requests [] = []" "search_requests [] = []" "transform_catalogs [] = []"
  by (simp_all add: fields_requests_def search_requests_def transform_catalogs_def)

lemma readings_append [simp]:
  "fields_requests (xs @ ys) = fields_requests xs @ fields_requests ys"
  "search_requests (xs @ ys) = search_requests xs @ search_requests ys"
  "transform_catalogs (xs @ ys) = transform_catalogs xs @ transform_catalogs ys"
  by (simp_all add: fields_requests_def search_requests_def transform_catalogs_def)












lemma upto_nth_from_0: "i < nat n \<Longrightarrow> [0..n - 1] ! i = int i"
  by (simp add: nth_upto)

lemma length_upto_from_0: "length [0..n - 1] = nat n"
  by simp













end
